theory Spec2Isabelle
  imports Main
begin

section \<open>Data model\<close>

text \<open>
  The analysis functions of \<^verbatim>\<open>predict.py\<close> work on numpy arrays of unit counts
  (whole numbers, held as integers or as whole-valued floats), modelled as \<open>int\<close> with
  exact sums: what numpy computes on an integer array while no sum leaves the range
  of its type, and on a float64 array of non-negative whole numbers while no sum
  reaches \<open>2 ^ 53\<close> (lemma \<open>predict_f64_exact\<close>). The day predictor on float64 records
  of any size has a section of its own. A one-dimensional array is a list of integers. A two-dimensional array of shape
  \<open>(n, P)\<close> keeps its second dimension also when it has no row, so it is a record of
  the column count \<open>shape1\<close> (numpy's \<^verbatim>\<open>shape[1]\<close>) and the list of its rows;
  \<^verbatim>\<open>shape[0]\<close> is the length of that list.
\<close>

record array2d =
  shape1 :: nat
  rows :: "int list list"

text \<open>The exceptions the modelled code can raise.\<close>

datatype error = IndexError | KeyError nat | ValueError

text \<open>
  A statsmodels regression problem: the dependent vector \<open>endog\<close> and the design
  matrix \<open>exog\<close>, one row of regressors per observation.
\<close>

datatype ols = OLS (endog: "int list") (exog: "int list list")

text \<open>
  What \<^verbatim>\<open>predict_stockout_day_demand\<close> returns: the value of the model's
  \<^verbatim>\<open>predict\<close>, or \<^verbatim>\<open>np.NaN\<close>.
\<close>

datatype 'r prediction = Predicted 'r | NaN

section \<open>numpy primitives\<close>

text \<open>
  \<^verbatim>\<open>a[mask]\<close> with a one-dimensional boolean mask: the rows where the mask holds, in
  order. numpy compares the mask's length with the number of rows only when the mask
  is not empty, and raises IndexError when they differ; an empty mask selects no row
  of any array.
\<close>

definition bool_index :: "array2d \<Rightarrow> bool list \<Rightarrow> error + array2d" where
  "bool_index a bmask =
     (if bmask = [] then Inr (a\<lparr>rows := []\<rparr>)
      else if length bmask \<noteq> length (rows a) then Inl IndexError
      else Inr (a\<lparr>rows := map fst (filter snd (zip (rows a) bmask))\<rparr>))"

text \<open>\<^verbatim>\<open>np.cumsum\<close>: the running sums, left to right.\<close>

fun cumsum_from :: "int \<Rightarrow> int list \<Rightarrow> int list" where
  "cumsum_from acc [] = []"
| "cumsum_from acc (x # xs) = (acc + x) # cumsum_from (acc + x) xs"

definition cumsum :: "int list \<Rightarrow> int list" where
  "cumsum xs = cumsum_from 0 xs"

text \<open>\<^verbatim>\<open>np.where(cond, a, 0)\<close>, elementwise over two arrays of one shape.\<close>

definition where_else_zero :: "bool list \<Rightarrow> int list \<Rightarrow> int list" where
  "where_else_zero cond a = map (\<lambda>(c, x). if c then x else 0) (zip cond a)"

definition count_nonzero :: "int list \<Rightarrow> nat" where
  "count_nonzero ys = length (filter (\<lambda>y. y \<noteq> 0) ys)"

text \<open>
  \<^verbatim>\<open>np.apply_along_axis(f, 1, a, ...)\<close> on a two-dimensional array calls \<open>f\<close> on the
  rows in order, the first row first, and stores one result per row. An exception of
  \<open>f\<close> ends the call. With no row to iterate over it raises ValueError
  (\<^verbatim>\<open>Cannot apply_along_axis when any iteration dimensions are 0\<close>).
\<close>

fun apply_rows :: "(int list \<Rightarrow> error + 'a) \<Rightarrow> int list list \<Rightarrow> error + 'a list" where
  "apply_rows f [] = Inr []"
| "apply_rows f (r # rs) =
     (case f r of
        Inl e \<Rightarrow> Inl e
      | Inr y \<Rightarrow> (case apply_rows f rs of Inl e \<Rightarrow> Inl e | Inr ys \<Rightarrow> Inr (y # ys)))"

definition apply_along_axis1 :: "(int list \<Rightarrow> error + 'a) \<Rightarrow> array2d \<Rightarrow> error + 'a list" where
  "apply_along_axis1 f a = (if rows a = [] then Inl ValueError else apply_rows f (rows a))"

section \<open>statsmodels primitives\<close>

text \<open>
  \<^verbatim>\<open>sm.OLS(Y, X)\<close> with one-dimensional \<open>Y\<close> and \<open>X\<close>: statsmodels makes \<open>X\<close> the
  only column of the design matrix. It adds no constant column (that is
  \<^verbatim>\<open>sm.add_constant\<close>); it only looks for one among the given columns, taking each
  column's maximum and minimum, which raises ValueError when there is no observation.
\<close>

definition sm_OLS :: "int list \<Rightarrow> int list \<Rightarrow> error + ols" where
  "sm_OLS Y X = (if X = [] then Inl ValueError else Inr (OLS Y (map (\<lambda>x. [x]) X)))"

section \<open>The analysis functions\<close>

subsection \<open>split_days_by_stockout\<close>

definition split_days_by_stockout ::
    "array2d \<Rightarrow> int list \<Rightarrow> error + (array2d \<times> array2d)" where
  "split_days_by_stockout period_sales_daily unsold_daily =
     (case bool_index period_sales_daily (map (\<lambda>u. u > 0) unsold_daily) of
        Inl e \<Rightarrow> Inl e
      | Inr complete_days \<Rightarrow>
          (case bool_index period_sales_daily (map (\<lambda>u. u = 0) unsold_daily) of
             Inl e \<Rightarrow> Inl e
           | Inr stockout_days \<Rightarrow> Inr (complete_days, stockout_days)))"

subsection \<open>create_models_by_known_periods\<close>

text \<open>
  The least-squares fit itself is statsmodels' (\<^verbatim>\<open>ols_model.fit()\<close>); it is the
  parameter \<open>fit\<close>. The loop over \<^verbatim>\<open>range(1, num_periods)\<close> writes one dictionary
  entry per round; an exception of \<^verbatim>\<open>sm.OLS\<close> ends the function.
\<close>

fun models_loop ::
    "(ols \<Rightarrow> 'm) \<Rightarrow> array2d \<Rightarrow> nat list \<Rightarrow> (nat \<rightharpoonup> 'm) \<Rightarrow> error + (nat \<rightharpoonup> 'm)" where
  "models_loop fit complete_days [] period_models = Inr period_models"
| "models_loop fit complete_days (period # ps) period_models =
     (let known_periods = map (take period) (rows complete_days);
          X = map sum_list known_periods;
          Y = map sum_list (rows complete_days)
      in case sm_OLS Y X of
           Inl e \<Rightarrow> Inl e
         | Inr ols_model \<Rightarrow>
             (let result = fit ols_model
              in models_loop fit complete_days ps (period_models(period \<mapsto> result))))"

definition create_models_by_known_periods ::
    "(ols \<Rightarrow> 'm) \<Rightarrow> array2d \<Rightarrow> error + (nat \<rightharpoonup> 'm)" where
  "create_models_by_known_periods fit complete_days =
     (let num_periods = shape1 complete_days
      in models_loop fit complete_days [1..<num_periods] Map.empty)"

subsection \<open>predict_stockout_day_demand\<close>

text \<open>
  The local variables of the function, each as a function of the day's record, then
  the function. \<open>predict\<close> is the fitted model's \<^verbatim>\<open>predict\<close> method; a missing
  dictionary key raises KeyError.
\<close>

definition known_periods :: "int list \<Rightarrow> int list" where
  "known_periods stockout_period_sales =
     (let days_sum = sum_list stockout_period_sales;
          cumsum_periods = cumsum stockout_period_sales
      in where_else_zero (map (\<lambda>c. c < days_sum) cumsum_periods) stockout_period_sales)"

definition num_known_periods :: "int list \<Rightarrow> nat" where
  "num_known_periods stockout_period_sales =
     count_nonzero (known_periods stockout_period_sales)"

definition known_demand :: "int list \<Rightarrow> int" where
  "known_demand stockout_period_sales =
     sum_list (take (num_known_periods stockout_period_sales) stockout_period_sales)"

definition predict_stockout_day_demand ::
    "('m \<Rightarrow> int \<Rightarrow> 'r) \<Rightarrow> int list \<Rightarrow> (nat \<rightharpoonup> 'm) \<Rightarrow> error + 'r prediction" where
  "predict_stockout_day_demand predict stockout_period_sales period_models =
     (if num_known_periods stockout_period_sales > 0 then
        (case period_models (num_known_periods stockout_period_sales) of
           None \<Rightarrow> Inl (KeyError (num_known_periods stockout_period_sales))
         | Some model \<Rightarrow> Inr (Predicted (predict model (known_demand stockout_period_sales))))
      else Inr NaN)"

subsection \<open>predict_stockout_daily_demand\<close>

definition predict_stockout_daily_demand ::
    "('m \<Rightarrow> int \<Rightarrow> 'r) \<Rightarrow> array2d \<Rightarrow> (nat \<rightharpoonup> 'm) \<Rightarrow> error + 'r prediction list" where
  "predict_stockout_daily_demand predict stockout_days period_models =
     apply_along_axis1 (\<lambda>row. predict_stockout_day_demand predict row period_models)
       stockout_days"

section \<open>The day predictor on float64 records\<close>

text \<open>
  The simulator hands the analysis float64 arrays of whole numbers. The float64 values
  that are whole numbers, with the infinities and the not-a-number value that sums of
  them can produce. A whole number \<open>n\<close> is a float64 value when rounding leaves it
  as it is, \<open>f64_of_int n = Whole n\<close>; every whole number of magnitude up to
  \<open>2 ^ 53\<close> is one.
\<close>

datatype f64 = Whole int | PInf | NInf | NaN64

text \<open>
  Rounding a natural number to float64, to nearest with ties to even: float64 keeps 53
  significant bits, so the \<open>drop_bits m\<close> lowest bits of a longer number are rounded
  away.
\<close>

fun drop_bits :: "nat \<Rightarrow> nat" where
  "drop_bits m = (if m < 2 ^ 53 then 0 else Suc (drop_bits (m div 2)))"

declare drop_bits.simps [simp del]

definition round_even :: "nat \<Rightarrow> nat" where
  "round_even m =
     (let e = drop_bits m; q = m div 2 ^ e; r = m mod 2 ^ e
      in (if 2 * r < 2 ^ e \<or> (2 * r = 2 ^ e \<and> even q) then q else q + 1) * 2 ^ e)"

text \<open>
  The float64 result of an exact whole result; beyond the largest finite float64 the
  result is an infinity.
\<close>

definition f64_of_int :: "int \<Rightarrow> f64" where
  "f64_of_int n =
     (let v = round_even (nat \<bar>n\<bar>)
      in if 2 ^ 1024 \<le> v then (if 0 < n then PInf else NInf) else Whole (sgn n * int v))"

fun f64_add :: "f64 \<Rightarrow> f64 \<Rightarrow> f64" where
  "f64_add (Whole a) (Whole b) = f64_of_int (a + b)"
| "f64_add NaN64 y = NaN64"
| "f64_add x NaN64 = NaN64"
| "f64_add PInf NInf = NaN64"
| "f64_add NInf PInf = NaN64"
| "f64_add PInf y = PInf"
| "f64_add x PInf = PInf"
| "f64_add NInf y = NInf"
| "f64_add x NInf = NInf"

fun f64_less :: "f64 \<Rightarrow> f64 \<Rightarrow> bool" where
  "f64_less (Whole a) (Whole b) = (a < b)"
| "f64_less (Whole a) PInf = True"
| "f64_less NInf (Whole b) = True"
| "f64_less NInf PInf = True"
| "f64_less x y = False"

text \<open>
  \<^verbatim>\<open>np.sum\<close> on a one-dimensional float64 array is numpy's pairwise summation, added
  to an accumulator that starts at 0. Below 8 elements the elements are added in
  order. Up to 128 elements eight accumulators take the first 8 elements, each adds
  every eighth element after its own while 8 more elements remain (\<open>acc_loop\<close>), the
  accumulators are added as a balanced tree (\<open>combine8\<close>), and the remaining elements
  are added in order. A longer array is cut at half its length, rounded down to a
  multiple of 8, and the sums of the two parts are added.
\<close>

function acc_loop :: "f64 list \<Rightarrow> f64 list \<Rightarrow> f64 list \<times> f64 list" where
  "acc_loop r a =
     (if 8 \<le> length a then acc_loop (map2 f64_add r (take 8 a)) (drop 8 a) else (r, a))"
  by pat_completeness auto
termination
  by (relation "measure (\<lambda>(r, a). length a)") auto

declare acc_loop.simps [simp del]

definition combine8 :: "f64 list \<Rightarrow> f64" where
  "combine8 r =
     f64_add (f64_add (f64_add (r ! 0) (r ! 1)) (f64_add (r ! 2) (r ! 3)))
             (f64_add (f64_add (r ! 4) (r ! 5)) (f64_add (r ! 6) (r ! 7)))"

function pairwise_sum :: "f64 list \<Rightarrow> f64" where
  "pairwise_sum a =
     (if length a < 8 then foldl f64_add (Whole 0) a
      else if length a \<le> 128 then
        (case acc_loop (take 8 a) (drop 8 a) of
           (r, rest) \<Rightarrow> foldl f64_add (combine8 r) rest)
      else
        (let n2 = length a div 2 - (length a div 2) mod 8
         in f64_add (pairwise_sum (take n2 a)) (pairwise_sum (drop n2 a))))"
  by pat_completeness auto
termination
  by (relation "measure length") (auto simp: Let_def)

declare pairwise_sum.simps [simp del]

definition np_sum :: "f64 list \<Rightarrow> f64" where
  "np_sum a = f64_add (Whole 0) (pairwise_sum a)"

text \<open>\<^verbatim>\<open>np.cumsum\<close> on a float64 array: every running sum is the one before plus the
  next element, rounded.\<close>

fun cumsum_f64_from :: "f64 \<Rightarrow> f64 list \<Rightarrow> f64 list" where
  "cumsum_f64_from acc [] = []"
| "cumsum_f64_from acc (x # xs) = f64_add acc x # cumsum_f64_from (f64_add acc x) xs"

fun np_cumsum :: "f64 list \<Rightarrow> f64 list" where
  "np_cumsum [] = []"
| "np_cumsum (x # xs) = x # cumsum_f64_from x xs"

text \<open>
  \<^verbatim>\<open>predict_stockout_day_demand\<close> on a float64 record: the same lines of code, with
  float64 sums and comparisons.
\<close>

definition where_else_zero_f64 :: "bool list \<Rightarrow> f64 list \<Rightarrow> f64 list" where
  "where_else_zero_f64 cond a = map (\<lambda>(c, x). if c then x else Whole 0) (zip cond a)"

definition count_nonzero_f64 :: "f64 list \<Rightarrow> nat" where
  "count_nonzero_f64 ys = length (filter (\<lambda>y. y \<noteq> Whole 0) ys)"

definition known_periods_f64 :: "f64 list \<Rightarrow> f64 list" where
  "known_periods_f64 stockout_period_sales =
     (let days_sum = np_sum stockout_period_sales;
          cumsum_periods = np_cumsum stockout_period_sales
      in where_else_zero_f64 (map (\<lambda>c. f64_less c days_sum) cumsum_periods)
           stockout_period_sales)"

definition num_known_periods_f64 :: "f64 list \<Rightarrow> nat" where
  "num_known_periods_f64 stockout_period_sales =
     count_nonzero_f64 (known_periods_f64 stockout_period_sales)"

definition known_demand_f64 :: "f64 list \<Rightarrow> f64" where
  "known_demand_f64 stockout_period_sales =
     np_sum (take (num_known_periods_f64 stockout_period_sales) stockout_period_sales)"

definition predict_stockout_day_demand_f64 ::
    "('m \<Rightarrow> f64 \<Rightarrow> 'r) \<Rightarrow> f64 list \<Rightarrow> (nat \<rightharpoonup> 'm) \<Rightarrow> error + 'r prediction" where
  "predict_stockout_day_demand_f64 predict stockout_period_sales period_models =
     (if num_known_periods_f64 stockout_period_sales > 0 then
        (case period_models (num_known_periods_f64 stockout_period_sales) of
           None \<Rightarrow> Inl (KeyError (num_known_periods_f64 stockout_period_sales))
         | Some model \<Rightarrow>
             Inr (Predicted (predict model (known_demand_f64 stockout_period_sales))))
      else Inr NaN)"

section \<open>Auxiliary facts\<close>

lemma length_cumsum_from: "length (cumsum_from acc xs) = length xs"
  by (induction xs arbitrary: acc) auto

lemma length_cumsum: "length (cumsum xs) = length xs"
  by (simp add: cumsum_def length_cumsum_from)

lemma known_periods_zip:
  "known_periods xs =
     map (\<lambda>(c, x). if c < sum_list xs then x else 0) (zip (cumsum xs) xs)"
  by (simp add: known_periods_def where_else_zero_def Let_def zip_map1 split_def)

lemma num_known_periods_filter:
  "num_known_periods xs =
     length (filter (\<lambda>(c, x). c < sum_list xs \<and> x \<noteq> 0) (zip (cumsum xs) xs))"
proof -
  have "(\<lambda>y. y \<noteq> 0) \<circ> (\<lambda>(c, x). if c < sum_list xs then x else 0)
          = (\<lambda>(c, x). c < sum_list xs \<and> x \<noteq> (0::int))"
    by (auto simp: fun_eq_iff)
  then show ?thesis
    by (simp add: num_known_periods_def count_nonzero_def known_periods_zip filter_map)
qed






lemma models_loop_raises:
  "rows cd = [] \<Longrightarrow> ps \<noteq> [] \<Longrightarrow> models_loop fit cd ps pm = Inl ValueError"
  by (cases ps) (auto simp: Let_def sm_OLS_def)



lemma create_models_raises:
  "rows cd = [] \<Longrightarrow> 2 \<le> shape1 cd \<Longrightarrow>
     create_models_by_known_periods fit cd = Inl ValueError"
  by (simp add: create_models_by_known_periods_def models_loop_raises)


lemma apply_rows_Inr_iff: "apply_rows f rs = Inr ys \<longleftrightarrow> map f rs = map Inr ys"
proof (induction rs arbitrary: ys)
  case Nil
  then show ?case by auto
next
  case (Cons r rs)
  show ?case
  proof (cases "f r")
    case (Inl e)
    then show ?thesis by (cases ys) auto
  next
    case fr: (Inr y)
    show ?thesis
    proof (cases "apply_rows f rs")
      case (Inl e)
      have "map f rs \<noteq> map Inr zs" for zs
        using Cons.IH [of zs] Inl by simp
      with fr Inl show ?thesis by (cases ys) auto
    next
      case (Inr zs)
      then have "map f rs = map Inr zs" using Cons.IH by simp
      with fr Inr show ?thesis by (cases ys) (auto simp: inj_map_eq_map)
    qed
  qed
qed

lemma filter_zip_nth:
  "length xs = length bs \<Longrightarrow>
     map fst (filter snd (zip xs bs)) = map ((!) xs) (filter (\<lambda>i. bs ! i) [0..<length xs])"
proof (induction xs arbitrary: bs rule: rev_induct)
  case Nil
  then show ?case by simp
next
  case (snoc x xs)
  from snoc.prems obtain cs c where bs: "bs = cs @ [c]"
    by (cases bs rule: rev_cases) auto
  with snoc.prems have len: "length xs = length cs" by simp
  have 1: "filter (\<lambda>i. (cs @ [c]) ! i) [0..<length cs] = filter (\<lambda>i. cs ! i) [0..<length cs]"
    by (intro filter_cong) (auto simp: nth_append)
  have 2: "map ((!) (xs @ [x])) (filter (\<lambda>i. cs ! i) [0..<length cs])
             = map ((!) xs) (filter (\<lambda>i. cs ! i) [0..<length cs])"
    using len by (intro map_cong) (auto simp: nth_append)
  have 3: "(xs @ [x]) ! length cs = x"
    using len nth_append_length [of xs x "[]"] by simp
  have 4: "map fst (filter snd (zip xs cs)) = map ((!) xs) (filter (\<lambda>i. cs ! i) [0..<length cs])"
    using snoc.IH [OF len] len by simp
  have "map fst (filter snd (zip (xs @ [x]) (cs @ [c])))
          = map fst (filter snd (zip xs cs)) @ (if c then [x] else [])"
    using len by simp
  also have "\<dots> = map ((!) (xs @ [x])) (filter (\<lambda>i. (cs @ [c]) ! i) [0..<length cs])
                    @ (if c then [x] else [])"
    by (simp only: 1 2 4)
  also have "\<dots> = map ((!) (xs @ [x])) (filter (\<lambda>i. (cs @ [c]) ! i) [0..<Suc (length cs)])"
    by (simp add: 3)
  finally show ?case using len by (simp only: bs length_append_singleton)
qed

lemma bool_index_Inr:
  "length bmask = length (rows a) \<Longrightarrow>
     bool_index a bmask = Inr (a\<lparr>rows := map fst (filter snd (zip (rows a) bmask))\<rparr>)"
  by (auto simp: bool_index_def)

lemma split_days_Inr:
  "length unsold_daily = length (rows a) \<Longrightarrow>
     split_days_by_stockout a unsold_daily =
       Inr (a\<lparr>rows := map fst (filter snd (zip (rows a) (map (\<lambda>u. u > 0) unsold_daily)))\<rparr>,
            a\<lparr>rows := map fst (filter snd (zip (rows a) (map (\<lambda>u. u = 0) unsold_daily)))\<rparr>)"
  by (simp add: split_days_by_stockout_def bool_index_Inr)

lemma split_days_Inl:
  "unsold_daily \<noteq> [] \<Longrightarrow> length unsold_daily \<noteq> length (rows a) \<Longrightarrow>
     split_days_by_stockout a unsold_daily = Inl IndexError"
  by (simp add: split_days_by_stockout_def bool_index_def)

lemma split_days_empty_unsold:
  "split_days_by_stockout a [] = Inr (a\<lparr>rows := []\<rparr>, a\<lparr>rows := []\<rparr>)"
  by (simp add: split_days_by_stockout_def bool_index_def)

lemma predict_daily_nonempty:
  "rows stockout_days \<noteq> [] \<Longrightarrow>
     predict_stockout_daily_demand predict stockout_days period_models = Inr ys \<longleftrightarrow>
       map (\<lambda>row. predict_stockout_day_demand predict row period_models) (rows stockout_days)
         = map Inr ys"
  by (simp add: predict_stockout_daily_demand_def apply_along_axis1_def apply_rows_Inr_iff)

lemma num_known_less_masked:
  assumes "i < length xs" and "xs ! i = 0" and "cumsum xs ! i < sum_list xs"
  shows "num_known_periods xs < length (filter (\<lambda>c. c < sum_list xs) (cumsum xs))"
proof -
  let ?zs = "zip (cumsum xs) xs"
  let ?Q = "\<lambda>(c :: int, x :: int). c < sum_list xs"
  let ?P = "\<lambda>(c :: int, x :: int). x \<noteq> 0"
  have nk: "num_known_periods xs = length (filter ?P (filter ?Q ?zs))"
    by (simp add: num_known_periods_filter split_def)
  have "map fst ?zs = cumsum xs"
    by (simp add: length_cumsum)
  then have "filter (\<lambda>c. c < sum_list xs) (cumsum xs) = filter (\<lambda>c. c < sum_list xs) (map fst ?zs)"
    by simp
  also have "\<dots> = map fst (filter ?Q ?zs)"
    by (simp add: filter_map o_def split_def)
  finally have mc: "length (filter (\<lambda>c. c < sum_list xs) (cumsum xs)) = length (filter ?Q ?zs)"
    by simp
  have "i < length ?zs"
    using assms(1) by (simp add: length_cumsum)
  then have "?zs ! i \<in> set ?zs"
    by (rule nth_mem)
  moreover have "?zs ! i = (cumsum xs ! i, xs ! i)"
    using assms(1) by (simp add: length_cumsum)
  ultimately have "(cumsum xs ! i, xs ! i) \<in> set (filter ?Q ?zs)"
    using assms(3) by simp
  moreover have "\<not> ?P (cumsum xs ! i, xs ! i)"
    using assms(2) by simp
  ultimately have "length (filter ?P (filter ?Q ?zs)) < length (filter ?Q ?zs)"
    by (rule length_filter_less)
  with nk mc show ?thesis by simp
qed

lemma num_known_periods_positive:
  assumes "\<forall>x\<in>set xs. 0 \<le> x"
  shows "num_known_periods xs =
           length (filter (\<lambda>(c, x). c < sum_list xs \<and> 0 < x) (zip (cumsum xs) xs))"
proof -
  have "filter (\<lambda>(c, x). c < sum_list xs \<and> x \<noteq> 0) (zip (cumsum xs) xs)
          = filter (\<lambda>(c, x). c < sum_list xs \<and> 0 < x) (zip (cumsum xs) xs)"
    using assms by (intro filter_cong) (auto dest!: set_zip_rightD)
  then show ?thesis
    by (simp add: num_known_periods_filter)
qed

lemma split_days_counts_nonneg:
  assumes "\<forall>u\<in>set unsold_daily. 0 \<le> u"
    and "split_days_by_stockout a unsold_daily = Inr (complete_days, stockout_days)"
    and len: "length unsold_daily = length (rows a)"
  shows "length (rows complete_days) + length (rows stockout_days) = length (rows a)"
proof -
  let ?zs = "zip (rows a) unsold_daily"
  have c: "length (rows complete_days) = length (filter (\<lambda>(r, u). 0 < u) ?zs)"
    using assms(2) split_days_Inr [OF len] by (auto simp: zip_map2 filter_map o_def split_def)
  have "length (rows stockout_days) = length (filter (\<lambda>(r, u). u = 0) ?zs)"
    using assms(2) split_days_Inr [OF len] by (auto simp: zip_map2 filter_map o_def split_def)
  also have "filter (\<lambda>(r, u). u = 0) ?zs = filter (\<lambda>z. \<not> (\<lambda>(r, u). 0 < u) z) ?zs"
    using assms(1) by (intro filter_cong) (auto dest!: set_zip_rightD)
  finally have s: "length (rows stockout_days) = length (filter (\<lambda>z. \<not> (\<lambda>(r, u). 0 < u) z) ?zs)" .
  show ?thesis
    unfolding c s using len by (simp only: sum_length_filter_compl) simp
qed

text \<open>
  Float64 sums of non-negative whole numbers are exact while they stay below \<open>2 ^ 53\<close>, so
  there the float64 predictor is the predictor on exact integers.
\<close>

lemma drop_bits_small: "m < 2 ^ 53 \<Longrightarrow> drop_bits m = 0"
  by (subst drop_bits.simps) simp

lemma round_even_small: "m < 2 ^ 53 \<Longrightarrow> round_even m = m"
  by (simp add: round_even_def drop_bits_small)

lemma f64_of_int_exact:
  assumes "0 \<le> n" and "n < 2 ^ 53"
  shows "f64_of_int n = Whole n"
proof -
  have s: "nat \<bar>n\<bar> < 2 ^ 53"
    using assms by (simp add: nat_less_iff)
  have "(2 :: nat) ^ 53 < 2 ^ 1024"
    by (rule power_strict_increasing) simp_all
  with s have "\<not> 2 ^ 1024 \<le> nat \<bar>n\<bar>"
    by linarith
  moreover have "sgn n * int (nat \<bar>n\<bar>) = n"
    using assms(1) by (cases "n = 0") simp_all
  ultimately show ?thesis
    by (simp add: f64_of_int_def round_even_small [OF s] del: power_strict_increasing_iff)
qed

lemma f64_add_exact:
  "0 \<le> a \<Longrightarrow> 0 \<le> b \<Longrightarrow> a + b < 2 ^ 53 \<Longrightarrow> f64_add (Whole a) (Whole b) = Whole (a + b)"
  by (simp add: f64_of_int_exact)

lemma foldl_f64_add_exact:
  "\<forall>y\<in>set ys. 0 \<le> y \<Longrightarrow> 0 \<le> x \<Longrightarrow> x + sum_list ys < 2 ^ 53 \<Longrightarrow>
     foldl f64_add (Whole x) (map Whole ys) = Whole (x + sum_list ys)"
proof (induction ys arbitrary: x)
  case Nil
  then show ?case by simp
next
  case (Cons y ys)
  have nn: "0 \<le> sum_list ys"
    using Cons.prems(1) by (intro sum_list_nonneg) simp
  have "f64_add (Whole x) (Whole y) = Whole (x + y)"
    using Cons.prems nn by (intro f64_add_exact) auto
  moreover have "foldl f64_add (Whole (x + y)) (map Whole ys) = Whole (x + y + sum_list ys)"
    using Cons.prems by (intro Cons.IH) auto
  ultimately show ?case by (simp add: add.assoc)
qed

lemma cumsum_f64_from_exact:
  "\<forall>y\<in>set ys. 0 \<le> y \<Longrightarrow> 0 \<le> acc \<Longrightarrow> acc + sum_list ys < 2 ^ 53 \<Longrightarrow>
     cumsum_f64_from (Whole acc) (map Whole ys) = map Whole (cumsum_from acc ys)"
proof (induction ys arbitrary: acc)
  case Nil
  then show ?case by simp
next
  case (Cons y ys)
  have nn: "0 \<le> sum_list ys"
    using Cons.prems(1) by (intro sum_list_nonneg) simp
  have a: "f64_add (Whole acc) (Whole y) = Whole (acc + y)"
    using Cons.prems nn by (intro f64_add_exact) auto
  have "cumsum_f64_from (Whole (acc + y)) (map Whole ys) = map Whole (cumsum_from (acc + y) ys)"
    using Cons.prems by (intro Cons.IH) auto
  with a show ?case by simp
qed

lemma np_cumsum_exact:
  assumes "\<forall>y\<in>set ns. 0 \<le> y" and "sum_list ns < 2 ^ 53"
  shows "np_cumsum (map Whole ns) = map Whole (cumsum ns)"
proof (cases ns)
  case Nil
  then show ?thesis by (simp add: cumsum_def)
next
  case (Cons x xs)
  have "cumsum_f64_from (Whole x) (map Whole xs) = map Whole (cumsum_from x xs)"
    using assms Cons by (intro cumsum_f64_from_exact) auto
  with Cons show ?thesis by (simp add: cumsum_def)
qed

lemma map2_f64_add_exact:
  "length r = length c \<Longrightarrow> \<forall>y\<in>set r. 0 \<le> y \<Longrightarrow> \<forall>y\<in>set c. 0 \<le> y \<Longrightarrow>
     sum_list r + sum_list c < 2 ^ 53 \<Longrightarrow>
     map2 f64_add (map Whole r) (map Whole c) = map Whole (map2 (+) r c)"
proof (induction r c rule: list_induct2)
  case Nil
  then show ?case by simp
next
  case (Cons x xs y ys)
  have nx: "0 \<le> sum_list xs" and ny: "0 \<le> sum_list ys"
    using Cons.prems by (auto intro!: sum_list_nonneg)
  have "f64_add (Whole x) (Whole y) = Whole (x + y)"
    using Cons.prems nx ny by (intro f64_add_exact) auto
  moreover have "map2 f64_add (map Whole xs) (map Whole ys) = map Whole (map2 (+) xs ys)"
    using Cons.prems nx ny by (intro Cons.IH) auto
  ultimately show ?case by simp
qed

lemma sum_list_map2_add:
  "length r = length c \<Longrightarrow> sum_list (map2 (+) r c) = sum_list r + sum_list (c :: int list)"
  by (induction r c rule: list_induct2) auto

lemma nonneg_map2_add:
  "\<forall>y\<in>set r. 0 \<le> y \<Longrightarrow> \<forall>y\<in>set c. 0 \<le> y \<Longrightarrow> \<forall>y\<in>set (map2 (+) r c). (0 :: int) \<le> y"
  by (auto simp: set_zip)

lemma acc_loop_exact:
  "length r = 8 \<Longrightarrow> \<forall>y\<in>set r. 0 \<le> y \<Longrightarrow> \<forall>y\<in>set a. 0 \<le> y \<Longrightarrow>
     sum_list r + sum_list a < 2 ^ 53 \<Longrightarrow>
     \<exists>r' rest. acc_loop (map Whole r) (map Whole a) = (map Whole r', map Whole rest)
       \<and> length r' = 8 \<and> (\<forall>y\<in>set r'. 0 \<le> y) \<and> (\<forall>y\<in>set rest. 0 \<le> y)
       \<and> sum_list r' + sum_list rest = sum_list r + sum_list a"
proof (induction a arbitrary: r rule: measure_induct_rule [of length])
  case (less a)
  show ?case
  proof (cases "8 \<le> length a")
    case False
    then have "acc_loop (map Whole r) (map Whole a) = (map Whole r, map Whole a)"
      by (subst acc_loop.simps) simp
    with less.prems show ?thesis by blast
  next
    case True
    let ?c = "take 8 a" and ?d = "drop 8 a"
    have split: "sum_list ?c + sum_list ?d = sum_list a"
      by (metis append_take_drop_id sum_list_append)
    have nc: "\<forall>y\<in>set ?c. 0 \<le> y" and nd: "\<forall>y\<in>set ?d. 0 \<le> y"
      using less.prems(3) by (auto dest: in_set_takeD in_set_dropD)
    have sd: "0 \<le> sum_list ?d"
      using nd by (intro sum_list_nonneg) simp
    have lc: "length r = length ?c"
      using True less.prems(1) by simp
    have m: "map2 f64_add (map Whole r) (map Whole ?c) = map Whole (map2 (+) r ?c)"
      using lc less.prems(2) nc less.prems(4) split sd by (intro map2_f64_add_exact) auto
    let ?r = "map2 (+) r ?c"
    have sr: "sum_list ?r = sum_list r + sum_list ?c"
      using lc by (rule sum_list_map2_add)
    have "\<exists>r' rest. acc_loop (map Whole ?r) (map Whole ?d) = (map Whole r', map Whole rest)
       \<and> length r' = 8 \<and> (\<forall>y\<in>set r'. 0 \<le> y) \<and> (\<forall>y\<in>set rest. 0 \<le> y)
       \<and> sum_list r' + sum_list rest = sum_list ?r + sum_list ?d"
    proof (rule less.IH)
      show "length ?d < length a" using True by simp
      show "length ?r = 8" using lc less.prems(1) by simp
      show "\<forall>y\<in>set ?r. 0 \<le> y" using less.prems(2) nc by (rule nonneg_map2_add)
      show "\<forall>y\<in>set ?d. 0 \<le> y" by (rule nd)
      show "sum_list ?r + sum_list ?d < 2 ^ 53" using sr split less.prems(4) by simp
    qed
    moreover have "acc_loop (map Whole r) (map Whole a) = acc_loop (map Whole ?r) (map Whole ?d)"
      using True m by (subst acc_loop.simps) (simp add: take_map drop_map)
    ultimately show ?thesis
      using sr split by (auto simp: add.assoc)
  qed
qed

lemma combine8_exact:
  assumes "length r = 8" and "\<forall>y\<in>set r. 0 \<le> y" and "sum_list r < 2 ^ 53"
  shows "combine8 (map Whole r) = Whole (sum_list r)"
proof -
  from assms(1) obtain a b c d e f g h where r: "r = [a, b, c, d, e, f, g, h]"
    by (auto simp: numeral_eq_Suc length_Suc_conv)
  show ?thesis
    using assms(2,3) unfolding r combine8_def
    by (simp add: f64_of_int_exact)
qed

lemma pairwise_sum_exact:
  "\<forall>y\<in>set ns. 0 \<le> y \<Longrightarrow> sum_list ns < 2 ^ 53 \<Longrightarrow>
     pairwise_sum (map Whole ns) = Whole (sum_list ns)"
proof (induction ns rule: measure_induct_rule [of length])
  case (less ns)
  consider (small) "length ns < 8" | (block) "8 \<le> length ns" "length ns \<le> 128"
    | (large) "128 < length ns"
    by linarith
  then show ?case
  proof cases
    case small
    have "foldl f64_add (Whole 0) (map Whole ns) = Whole (0 + sum_list ns)"
      using less.prems by (intro foldl_f64_add_exact) auto
    with small show ?thesis
      by (subst pairwise_sum.simps) simp
  next
    case block
    let ?c = "take 8 ns" and ?d = "drop 8 ns"
    have split: "sum_list ?c + sum_list ?d = sum_list ns"
      by (metis append_take_drop_id sum_list_append)
    have nc: "\<forall>y\<in>set ?c. 0 \<le> y" and nd: "\<forall>y\<in>set ?d. 0 \<le> y"
      using less.prems(1) by (auto dest: in_set_takeD in_set_dropD)
    have lc: "length ?c = 8"
      using block(1) by simp
    from acc_loop_exact [OF lc nc nd] split less.prems(2)
    obtain r' rest where
      loop: "acc_loop (map Whole ?c) (map Whole ?d) = (map Whole r', map Whole rest)"
      and lr: "length r' = 8" and nr: "\<forall>y\<in>set r'. 0 \<le> y" and nrest: "\<forall>y\<in>set rest. 0 \<le> y"
      and sum: "sum_list r' + sum_list rest = sum_list ns"
      by auto
    have srest: "0 \<le> sum_list rest" and sr: "0 \<le> sum_list r'"
      using nrest nr by (auto intro!: sum_list_nonneg)
    have c8: "combine8 (map Whole r') = Whole (sum_list r')"
      using lr nr sum srest less.prems(2) by (intro combine8_exact) auto
    have "foldl f64_add (Whole (sum_list r')) (map Whole rest) = Whole (sum_list r' + sum_list rest)"
      using nrest sr sum less.prems(2) by (intro foldl_f64_add_exact) auto
    with block loop c8 sum show ?thesis
      by (subst pairwise_sum.simps) (simp add: take_map drop_map)
  next
    case large
    define n2 where "n2 = length ns div 2 - (length ns div 2) mod 8"
    have n2: "0 < n2" "n2 < length ns"
      using large unfolding n2_def by arith+
    let ?c = "take n2 ns" and ?d = "drop n2 ns"
    have split: "sum_list ?c + sum_list ?d = sum_list ns"
      by (metis append_take_drop_id sum_list_append)
    have nc: "\<forall>y\<in>set ?c. 0 \<le> y" and nd: "\<forall>y\<in>set ?d. 0 \<le> y"
      using less.prems(1) by (auto dest: in_set_takeD in_set_dropD)
    have sc: "0 \<le> sum_list ?c" and sd: "0 \<le> sum_list ?d"
      using nc nd by (auto intro!: sum_list_nonneg)
    have c: "pairwise_sum (map Whole ?c) = Whole (sum_list ?c)"
      using n2 nc sd split less.prems(2) by (intro less.IH) auto
    have d: "pairwise_sum (map Whole ?d) = Whole (sum_list ?d)"
      using n2 nd sc split less.prems(2) by (intro less.IH) auto
    have "f64_add (Whole (sum_list ?c)) (Whole (sum_list ?d)) = Whole (sum_list ?c + sum_list ?d)"
      using sc sd split less.prems(2) by (intro f64_add_exact) auto
    with large c d split show ?thesis
      by (subst pairwise_sum.simps) (simp add: take_map drop_map n2_def Let_def)
  qed
qed

lemma np_sum_exact:
  assumes "\<forall>y\<in>set ns. 0 \<le> y" and "sum_list ns < 2 ^ 53"
  shows "np_sum (map Whole ns) = Whole (sum_list ns)"
proof -
  have "0 \<le> sum_list ns"
    using assms(1) by (intro sum_list_nonneg) simp
  then have "f64_add (Whole 0) (Whole (sum_list ns)) = Whole (0 + sum_list ns)"
    using assms(2) by (intro f64_add_exact) auto
  then show ?thesis
    by (simp add: np_sum_def pairwise_sum_exact [OF assms])
qed

lemma sum_list_take_le:
  assumes "\<forall>y\<in>set ns. (0 :: int) \<le> y"
  shows "sum_list (take k ns) \<le> sum_list ns"
proof -
  have "sum_list (take k ns) + sum_list (drop k ns) = sum_list ns"
    by (metis append_take_drop_id sum_list_append)
  moreover have "0 \<le> sum_list (drop k ns)"
    using assms by (intro sum_list_nonneg) (auto dest: in_set_dropD)
  ultimately show ?thesis by linarith
qed

lemma where_else_zero_f64_Whole:
  "where_else_zero_f64 bs (map Whole xs) = map Whole (where_else_zero bs xs)"
proof (induction bs arbitrary: xs)
  case Nil
  then show ?case
    by (simp add: where_else_zero_f64_def where_else_zero_def)
next
  case (Cons b bs)
  from Cons [unfolded where_else_zero_f64_def where_else_zero_def] show ?case
    by (cases xs) (simp_all add: where_else_zero_f64_def where_else_zero_def)
qed

lemma known_periods_f64_exact:
  assumes "\<forall>y\<in>set ns. 0 \<le> y" and "sum_list ns < 2 ^ 53"
  shows "known_periods_f64 (map Whole ns) = map Whole (known_periods ns)"
proof -
  have 1: "map (\<lambda>c. f64_less c (Whole T)) (map Whole cs) = map (\<lambda>c. c < T) cs" for T cs
    by simp
  show ?thesis
    unfolding known_periods_f64_def known_periods_def Let_def
      np_sum_exact [OF assms] np_cumsum_exact [OF assms] 1
    by (rule where_else_zero_f64_Whole)
qed

lemma count_nonzero_f64_Whole: "count_nonzero_f64 (map Whole ys) = count_nonzero ys"
  by (simp add: count_nonzero_f64_def count_nonzero_def filter_map o_def)

lemma num_known_periods_f64_exact:
  assumes "\<forall>y\<in>set ns. 0 \<le> y" and "sum_list ns < 2 ^ 53"
  shows "num_known_periods_f64 (map Whole ns) = num_known_periods ns"
  by (simp add: num_known_periods_f64_def num_known_periods_def
        known_periods_f64_exact [OF assms] count_nonzero_f64_Whole)

lemma known_demand_f64_exact:
  assumes "\<forall>y\<in>set ns. 0 \<le> y" and "sum_list ns < 2 ^ 53"
  shows "known_demand_f64 (map Whole ns) = Whole (known_demand ns)"
proof -
  let ?k = "num_known_periods ns"
  have "\<forall>y\<in>set (take ?k ns). 0 \<le> y"
    using assms(1) by (auto dest: in_set_takeD)
  moreover have "sum_list (take ?k ns) < 2 ^ 53"
    using sum_list_take_le [OF assms(1), of ?k] assms(2) by linarith
  ultimately have "np_sum (map Whole (take ?k ns)) = Whole (sum_list (take ?k ns))"
    by (rule np_sum_exact)
  then show ?thesis
    by (simp add: known_demand_f64_def known_demand_def num_known_periods_f64_exact [OF assms]
          take_map)
qed

lemma predict_f64_exact:
  assumes "\<forall>y\<in>set ns. 0 \<le> y" and "sum_list ns < 2 ^ 53"
  shows "predict_stockout_day_demand_f64 predict (map Whole ns) period_models =
           predict_stockout_day_demand (\<lambda>model x. predict model (Whole x)) ns period_models"
  by (simp add: predict_stockout_day_demand_f64_def predict_stockout_day_demand_def
        num_known_periods_f64_exact [OF assms] known_demand_f64_exact [OF assms]
        cong: option.case_cong)

section \<open>The claims\<close>

text \<open>
  Claim C1: the number of known periods is the count of periods whose cumulative sum is
  strictly below the day total, zero-sales periods included. The code counts the
  non-zero entries of the masked sales instead: in the record \<open>[0, 5, 3]\<close> two
  periods have a cumulative sum below the day total 8, the code's number of known
  periods is 1, and the known demand it sums is 0.
\<close>

theorem C1_zero_sales_period_not_counted:
  "sum_list [0, 5, 3 :: int] = 8 \<and> cumsum [0, 5, 3] = [0, 5, 8]
   \<and> length (filter (\<lambda>c. c < sum_list [0, 5, 3]) (cumsum [0, 5, 3])) = 2
   \<and> known_periods [0, 5, 3] = [0, 5, 0]
   \<and> num_known_periods [0, 5, 3] = 1
   \<and> known_demand [0, 5, 3] = 0"
  by (simp add: known_demand_def num_known_periods_def known_periods_def cumsum_def
        where_else_zero_def count_nonzero_def)

text \<open>
  Claim C2: on a record of non-negative sales the number of known periods is the number
  of periods with strictly positive sales among those whose cumulative sum is strictly
  below the day total; the known demand is the sum of that many leading periods, and
  the model looked up is the one under that number. Hence a zero-sales period with a
  cumulative sum below the day total makes the number of known periods, which is both
  the model index and the length of the summed prefix, strictly smaller than the
  number of periods below the day total.
\<close>

theorem C2_num_known_counts_positive_sales:
  assumes "\<forall>x\<in>set sales. 0 \<le> x"
  shows "num_known_periods sales =
           length (filter (\<lambda>(c, x). c < sum_list sales \<and> 0 < x) (zip (cumsum sales) sales))
       \<and> known_demand sales = sum_list (take (num_known_periods sales) sales)
       \<and> predict_stockout_day_demand predict sales period_models =
           (if 0 < num_known_periods sales then
              (case period_models (num_known_periods sales) of
                 None \<Rightarrow> Inl (KeyError (num_known_periods sales))
               | Some model \<Rightarrow>
                   Inr (Predicted (predict model (sum_list (take (num_known_periods sales) sales)))))
            else Inr NaN)
       \<and> ((\<exists>i<length sales. sales ! i = 0 \<and> cumsum sales ! i < sum_list sales) \<longrightarrow>
            num_known_periods sales < length (filter (\<lambda>c. c < sum_list sales) (cumsum sales))
            \<and> length (filter (\<lambda>c. c < sum_list sales) (cumsum sales)) \<le> length sales)"
proof -
  have 1: "num_known_periods sales =
             length (filter (\<lambda>(c, x). c < sum_list sales \<and> 0 < x) (zip (cumsum sales) sales))"
    using assms by (rule num_known_periods_positive)
  have 2: "known_demand sales = sum_list (take (num_known_periods sales) sales)"
    by (simp add: known_demand_def)
  have 3: "predict_stockout_day_demand predict sales period_models =
           (if 0 < num_known_periods sales then
              (case period_models (num_known_periods sales) of
                 None \<Rightarrow> Inl (KeyError (num_known_periods sales))
               | Some model \<Rightarrow>
                   Inr (Predicted (predict model (sum_list (take (num_known_periods sales) sales)))))
            else Inr NaN)"
    by (simp add: predict_stockout_day_demand_def known_demand_def split: option.split)
  have 4: "length (filter (\<lambda>c. c < sum_list sales) (cumsum sales)) \<le> length sales"
    using length_filter_le [of "\<lambda>c. c < sum_list sales" "cumsum sales"]
    by (simp add: length_cumsum)
  have 5: "(\<exists>i<length sales. sales ! i = 0 \<and> cumsum sales ! i < sum_list sales) \<longrightarrow>
            num_known_periods sales < length (filter (\<lambda>c. c < sum_list sales) (cumsum sales))"
    using num_known_less_masked by blast
  from 1 2 3 4 5 show ?thesis by blast
qed

theorem C2_witness:
  "num_known_periods [3, 0, 4, 5] = 2 \<and> known_demand [3, 0, 4, 5] = 3
   \<and> num_known_periods [3, 0, 4, 5]
       < length (filter (\<lambda>c. c < sum_list [3, 0, 4, 5]) (cumsum [3, 0, 4, 5]))"
proof -
  have h: "\<forall>x\<in>set [3, 0, 4, 5 :: int]. 0 \<le> x"
    by simp
  have z: "\<exists>i<length [3, 0, 4, 5 :: int].
             [3, 0, 4, 5 :: int] ! i = 0 \<and> cumsum [3, 0, 4, 5] ! i < sum_list [3, 0, 4, 5]"
    by (rule exI [of _ 1]) (simp add: cumsum_def)
  have c: "length (filter (\<lambda>(c, x). c < sum_list [3, 0, 4, 5 :: int] \<and> 0 < x)
             (zip (cumsum [3, 0, 4, 5]) [3, 0, 4, 5 :: int])) = 2"
    by (simp add: cumsum_def)
  from C2_num_known_counts_positive_sales [OF h, of "\<lambda>(m :: int) x. m * x" Map.empty] z c
  show ?thesis by simp
qed

text \<open>
  Claim C3: a record with no known period yields the NaN marker, not a number; the
  record \<open>[0, 0, 5]\<close> is such a record.
\<close>

theorem C3_no_known_period_gives_NaN:
  "(num_known_periods sales = 0 \<longrightarrow>
      predict_stockout_day_demand predict sales period_models = Inr NaN)
   \<and> predict_stockout_day_demand predict [0, 0, 5] period_models = Inr NaN"
  by (simp add: predict_stockout_day_demand_def num_known_periods_def known_periods_def
        cumsum_def where_else_zero_def count_nonzero_def)

theorem C3_witness:
  "num_known_periods [0, 0, 5] = 0
   \<and> predict_stockout_day_demand (\<lambda>(m :: int) x. m * x) [0, 0, 5] [1 \<mapsto> 2, 2 \<mapsto> 1] = Inr NaN"
proof -
  have h: "num_known_periods [0, 0, 5] = 0"
    by (simp add: num_known_periods_def known_periods_def cumsum_def where_else_zero_def
          count_nonzero_def)
  from C3_no_known_period_gives_NaN [of "[0, 0, 5]" "\<lambda>(m :: int) x. m * x" "[1 \<mapsto> 2, 2 \<mapsto> 1]"] h
  show ?thesis by blast
qed

text \<open>
  Claim C4: an input with a day whose inventory-remaining value passes neither test is
  rejected. The code has no check of the values: the one-day input with value \<open>-1\<close>
  is accepted and two groups are returned.
\<close>

theorem C4_negative_unsold_not_rejected:
  "split_days_by_stockout \<lparr>shape1 = 2, rows = [[4, 1]]\<rparr> [- 1] =
     Inr (\<lparr>shape1 = 2, rows = []\<rparr>, \<lparr>shape1 = 2, rows = []\<rparr>)"
  by (simp add: split_days_by_stockout_def bool_index_def)

text \<open>
  Claim C4, amended: the partitioner does not validate the inventory-remaining values.
  For every input whose two arrays have the same number of days, also one containing a
  day whose value passes neither test, it raises nothing and returns two groups with
  the input's number of columns.
\<close>

theorem C4_values_never_rejected:
  assumes "length unsold_daily = length (rows period_sales_daily)"
    and "\<exists>u\<in>set unsold_daily. \<not> u > 0 \<and> \<not> u = 0"
  shows "\<exists>complete_days stockout_days.
           split_days_by_stockout period_sales_daily unsold_daily
             = Inr (complete_days, stockout_days)
           \<and> shape1 complete_days = shape1 period_sales_daily
           \<and> shape1 stockout_days = shape1 period_sales_daily"
  using split_days_Inr [OF assms(1)] by simp

theorem C4_witness:
  "\<exists>complete_days stockout_days.
     split_days_by_stockout \<lparr>shape1 = 2, rows = [[4, 1], [2, 2]]\<rparr> [- 1, 0]
       = Inr (complete_days, stockout_days)
     \<and> shape1 complete_days = 2 \<and> shape1 stockout_days = 2"
proof -
  have l: "length [- 1, 0 :: int] = length (rows \<lparr>shape1 = 2, rows = [[4, 1], [2, 2]]\<rparr>)"
    by simp
  have n: "\<exists>u\<in>set [- 1, 0 :: int]. \<not> u > 0 \<and> \<not> u = 0"
    by simp
  from C4_values_never_rejected [OF l n] show ?thesis by simp
qed

text \<open>
  Claim C5: the two groups together hold every input day exactly once. On the three-day
  input with inventory-remaining values \<open>[2, -1, 0]\<close> the code returns one complete
  day and one stockout day; the day with value \<open>-1\<close> is in neither group. (With no
  negative value, and as many values as days, the two counts add up to the number of
  days, see \<open>split_days_counts_nonneg\<close>.)
\<close>

theorem C5_negative_unsold_row_lost:
  "split_days_by_stockout \<lparr>shape1 = 2, rows = [[5, 3], [0, 0], [2, 2]]\<rparr> [2, - 1, 0] =
     Inr (\<lparr>shape1 = 2, rows = [[5, 3]]\<rparr>, \<lparr>shape1 = 2, rows = [[2, 2]]\<rparr>)"
  by (simp add: split_days_by_stockout_def bool_index_def)




text \<open>
  Claim C7: for the record \<open>[10, 8, 0]\<close> the day total is 18 and the cumulative sums
  are \<open>[10, 18, 18]\<close>; one period is known, the known demand is 10, and the result
  is the model under key 1 applied to 10 (KeyError 1 when the table has no such key).
\<close>

theorem C7_known_case:
  "sum_list [10, 8, 0 :: int] = 18 \<and> cumsum [10, 8, 0] = [10, 18, 18]
   \<and> num_known_periods [10, 8, 0] = 1 \<and> known_demand [10, 8, 0] = 10
   \<and> predict_stockout_day_demand predict [10, 8, 0] period_models =
       (case period_models 1 of
          None \<Rightarrow> Inl (KeyError 1)
        | Some model \<Rightarrow> Inr (Predicted (predict model 10)))"
proof -
  have nk: "num_known_periods [10, 8, 0] = 1"
    by (simp add: num_known_periods_def known_periods_def cumsum_def where_else_zero_def
          count_nonzero_def)
  have kd: "known_demand [10, 8, 0] = 10"
    by (simp add: known_demand_def nk)
  have "predict_stockout_day_demand predict [10, 8, 0] period_models =
          (case period_models 1 of
             None \<Rightarrow> Inl (KeyError 1)
           | Some model \<Rightarrow> Inr (Predicted (predict model 10)))"
    by (simp add: predict_stockout_day_demand_def nk kd split: option.split)
  with nk kd show ?thesis
    by (simp add: cumsum_def)
qed

text \<open>
  Claim C8: the batch predictor returns one entry per input row, in order. On a stockout
  array with no row \<^verbatim>\<open>np.apply_along_axis\<close> raises ValueError, so the code returns
  nothing where the claim has the empty output. (With at least one row the output is
  the list of the rows' predictions, see \<open>predict_daily_nonempty\<close>.)
\<close>

theorem C8_empty_batch_raises:
  "predict_stockout_daily_demand predict \<lparr>shape1 = P, rows = []\<rparr> period_models
     = Inl ValueError"
  by (simp add: predict_stockout_daily_demand_def apply_along_axis1_def)




text \<open>
  Claim C10: when the partitioner returns, the complete days are the input rows at the
  indices whose inventory-remaining value is greater than zero, and the stockout days
  are the input rows at the indices whose value equals zero, both in input order.
  The indices are those of the inventory-remaining array, which is empty or as long
  as the number of input rows.
\<close>

theorem C10_groups_by_unsold:
  assumes "split_days_by_stockout period_sales_daily unsold_daily
             = Inr (complete_days, stockout_days)"
  shows "(unsold_daily = [] \<or> length unsold_daily = length (rows period_sales_daily))
       \<and> rows complete_days =
           map ((!) (rows period_sales_daily))
             (filter (\<lambda>i. unsold_daily ! i > 0) [0..<length unsold_daily])
       \<and> rows stockout_days =
           map ((!) (rows period_sales_daily))
             (filter (\<lambda>i. unsold_daily ! i = 0) [0..<length unsold_daily])"
proof (cases "unsold_daily = []")
  case True
  with assms show ?thesis
    by (auto simp: split_days_empty_unsold)
next
  case False
  let ?n = "length (rows period_sales_daily)"
  have len: "length unsold_daily = ?n"
    using assms False split_days_Inl [of unsold_daily period_sales_daily] by auto
  have sel: "filter (\<lambda>i. map f unsold_daily ! i) [0..<?n] = filter (\<lambda>i. f (unsold_daily ! i)) [0..<?n]"
    for f :: "int \<Rightarrow> bool"
    using len by (intro filter_cong) auto
  have idx: "map fst (filter snd (zip (rows period_sales_daily) (map f unsold_daily)))
               = map ((!) (rows period_sales_daily)) (filter (\<lambda>i. f (unsold_daily ! i)) [0..<?n])"
    for f :: "int \<Rightarrow> bool"
    using filter_zip_nth [of "rows period_sales_daily" "map f unsold_daily"] len
    by (simp only: sel length_map)
  from assms split_days_Inr [OF len]
  have "rows complete_days
          = map fst (filter snd (zip (rows period_sales_daily) (map (\<lambda>u. u > 0) unsold_daily)))"
    and "rows stockout_days
          = map fst (filter snd (zip (rows period_sales_daily) (map (\<lambda>u. u = 0) unsold_daily)))"
    by auto
  then have "rows complete_days =
               map ((!) (rows period_sales_daily)) (filter (\<lambda>i. unsold_daily ! i > 0) [0..<?n])"
    and "rows stockout_days =
               map ((!) (rows period_sales_daily)) (filter (\<lambda>i. unsold_daily ! i = 0) [0..<?n])"
    by (simp_all only: idx)
  with len show ?thesis
    by simp
qed

theorem C10_witness:
  "split_days_by_stockout \<lparr>shape1 = 2, rows = [[5, 3], [0, 0], [2, 2], [7, 1]]\<rparr> [2, - 1, 0, 4]
     = Inr (\<lparr>shape1 = 2, rows = [[5, 3], [7, 1]]\<rparr>, \<lparr>shape1 = 2, rows = [[2, 2]]\<rparr>)
   \<and> [[5, 3], [7, 1]] =
       map ((!) [[5, 3], [0, 0], [2, 2], [7, 1 :: int]])
         (filter (\<lambda>i. [2, - 1, 0, 4 :: int] ! i > 0) [0..<length [2, - 1, 0, 4 :: int]])"
proof -
  have h: "split_days_by_stockout \<lparr>shape1 = 2, rows = [[5, 3], [0, 0], [2, 2], [7, 1]]\<rparr>
             [2, - 1, 0, 4]
           = Inr (\<lparr>shape1 = 2, rows = [[5, 3], [7, 1]]\<rparr>, \<lparr>shape1 = 2, rows = [[2, 2]]\<rparr>)"
    by (simp add: split_days_by_stockout_def bool_index_def)
  from C10_groups_by_unsold [OF h]
  have "rows \<lparr>shape1 = 2, rows = [[5, 3], [7, 1]]\<rparr> =
          map ((!) (rows \<lparr>shape1 = 2, rows = [[5, 3], [0, 0], [2, 2], [7, 1]]\<rparr>))
            (filter (\<lambda>i. [2, - 1, 0, 4 :: int] ! i > 0) [0..<length [2, - 1, 0, 4 :: int]])"
    by blast
  then have "[[5, 3], [7, 1]] =
       map ((!) [[5, 3], [0, 0], [2, 2], [7, 1 :: int]])
         (filter (\<lambda>i. [2, - 1, 0, 4 :: int] ! i > 0) [0..<length [2, - 1, 0, 4 :: int]])"
    by (simp only: array2d.simps)
  with h show ?thesis by blast
qed

end
